theory Spec2Isabelle
  imports Main
begin

section \<open>The exception module (errors/types.ts, errors/index.ts)\<close>

text \<open>
  \<^verbatim>\<open>ExceptionConfig\<close> has a mandatory \<^verbatim>\<open>name\<close> and six optional properties; an optional
  property is an \<open>option\<close>, \<open>None\<close> standing for \<^verbatim>\<open>undefined\<close>. An \<^verbatim>\<open>Exception\<close> is the object
  \<^verbatim>\<open>base\<close> built by \<^verbatim>\<open>exception(config)\<close>: the properties spread from \<^verbatim>\<open>config\<close>, the
  defaulted \<^verbatim>\<open>stack\<close> and \<^verbatim>\<open>notes\<close>, and three closures. The closures read \<^verbatim>\<open>config\<close> and
  \<^verbatim>\<open>base\<close>, so the value of an Exception is its seven properties together with the
  captured \<^verbatim>\<open>config\<close> (\<open>env_config\<close>); the closures themselves are the functions
  \<open>from_exn\<close>, \<open>is_exn\<close> and \<open>addNote\<close> below, taking the receiver as first argument
  (\<^verbatim>\<open>from\<close>, \<^verbatim>\<open>is\<close> and \<^verbatim>\<open>notes\<close> are reserved words of the proof language; the
  property \<^verbatim>\<open>notes\<close> is the selector \<open>notes_seq\<close>).
\<close>

datatype ExceptionConfig =
  ExceptionConfig
    (c_name: string)
    (c_namespace: "string option")
    (c_code: "string option")
    (c_message: "string option")
    (c_cause: "Exception option")
    (c_stack: "Exception list option")
    (c_notes: "string list option")
and Exception =
  Exception
    (name: string)
    (namespace: "string option")
    (code: "string option")
    (message: "string option")
    (cause: "Exception option")
    (stack: "Exception list")
    (notes_seq: "string list")
    (env_config: ExceptionConfig)

text \<open>\<^verbatim>\<open>x ?? []\<close>: the left operand unless it is \<^verbatim>\<open>undefined\<close>.\<close>

definition nullish_or_empty :: "'a list option \<Rightarrow> 'a list" where
  "nullish_or_empty x = (case x of None \<Rightarrow> [] | Some xs \<Rightarrow> xs)"

text \<open>
  \<^verbatim>\<open>
  export const exception = (config: ExceptionConfig): Exception => {
    const base: Exception = {
      ...config,
      stack: config.stack ?? [],
      cause: config.cause,
      notes: config.notes ?? [],
      from(cause) { ... }, is(other) { ... }, addNote(note) { ... },
    };
    return base;
  };
  \<close>
\<close>

definition exception :: "ExceptionConfig \<Rightarrow> Exception" where
  "exception config =
     Exception (c_name config) (c_namespace config) (c_code config) (c_message config)
       (c_cause config)
       (nullish_or_empty (c_stack config))
       (nullish_or_empty (c_notes config))
       config"

text \<open>
  \<^verbatim>\<open>
  from(cause: Exception): Exception {
    return exception({ ...config, cause, stack: [...base.stack, cause] });
  }
  \<close>
\<close>

definition from_exn :: "Exception \<Rightarrow> Exception \<Rightarrow> Exception" where
  "from_exn base cause' =
     exception
       (ExceptionConfig (c_name (env_config base)) (c_namespace (env_config base))
          (c_code (env_config base)) (c_message (env_config base))
          (Some cause')
          (Some (stack base @ [cause']))
          (c_notes (env_config base)))"

text \<open>
  The condition of \<^verbatim>\<open>config.namespace ? ... : true\<close> is JavaScript truthiness of an optional
  string: \<^verbatim>\<open>undefined\<close> and the empty string are falsy.
\<close>

definition truthy :: "string option \<Rightarrow> bool" where
  "truthy x = (case x of None \<Rightarrow> False | Some s \<Rightarrow> s \<noteq> [])"

text \<open>
  \<^verbatim>\<open>
  is(other: Exception): boolean {
    return (
      other.name === config.name &&
      (config.namespace ? other.namespace === config.namespace : true)
    );
  }
  \<close>
\<close>

definition is_exn :: "Exception \<Rightarrow> Exception \<Rightarrow> bool" where
  "is_exn base other =
     (name other = c_name (env_config base) \<and>
      (if truthy (c_namespace (env_config base))
       then namespace other = c_namespace (env_config base)
       else True))"

text \<open>
  \<^verbatim>\<open>
  addNote(note: string): Exception {
    return exception({ ...config, notes: [...base.notes, note] });
  }
  \<close>
\<close>

definition addNote :: "Exception \<Rightarrow> string \<Rightarrow> Exception" where
  "addNote base note' =
     exception
       (ExceptionConfig (c_name (env_config base)) (c_namespace (env_config base))
          (c_code (env_config base)) (c_message (env_config base))
          (c_cause (env_config base))
          (c_stack (env_config base))
          (Some (notes_seq base @ [note'])))"

text \<open>
  \<^verbatim>\<open>
  export const exceptionSpace = (space: ExceptionSpaceConfig) => {
    return {
      define: (config: Omit<ExceptionConfig, "namespace">): Exception => {
        return exception({ ...config, namespace: space.name });
      },
      severity: space.severity,
      name: space.name,
    };
  };
  \<close>
  The parameter of \<^verbatim>\<open>define\<close> is typed without a \<^verbatim>\<open>namespace\<close>; the object literal writes
  \<^verbatim>\<open>namespace\<close> after the spread, so a namespace present at run time is overwritten. The
  model takes any configuration and overwrites, which covers both.
\<close>

datatype Severity = Info | Warning | Error | Critical

record ExceptionSpaceConfig =
  sc_name :: string
  sc_severity :: Severity

record ExceptionSpace =
  s_define :: "ExceptionConfig \<Rightarrow> Exception"
  s_severity :: Severity
  s_name :: string

definition exceptionSpace :: "ExceptionSpaceConfig \<Rightarrow> ExceptionSpace" where
  "exceptionSpace space =
     \<lparr> s_define = (\<lambda>config.
          exception
            (ExceptionConfig (c_name config) (Some (sc_name space)) (c_code config)
               (c_message config) (c_cause config) (c_stack config) (c_notes config))),
       s_severity = sc_severity space,
       s_name = sc_name space \<rparr>"

text \<open>
  \<^verbatim>\<open>
  export const raise = (exception: Exception): Exception => {
    return exception;
  };
  \<close>
\<close>

definition raise :: "Exception \<Rightarrow> Exception" where
  "raise e = e"

text \<open>
  \<^verbatim>\<open>
  export const group = (
    name: string,
    exceptions: [Exception, ...Exception[]],
  ): ExceptionGroup => ({ name, exceptions });
  \<close>
  The tuple type \<^verbatim>\<open>[T, ...T[]]\<close> is a first element and the rest.
\<close>

type_synonym 'a NonEmptyArray = "'a \<times> 'a list"

definition elements :: "'a NonEmptyArray \<Rightarrow> 'a list" where
  "elements a = fst a # snd a"

record ExceptionGroup =
  g_name :: string
  g_exceptions :: "Exception NonEmptyArray"

definition group :: "string \<Rightarrow> Exception NonEmptyArray \<Rightarrow> ExceptionGroup" where
  "group name' exceptions = \<lparr> g_name = name', g_exceptions = exceptions \<rparr>"

section \<open>The argument validator adapter (parseArgs)\<close>

text \<open>
  Modelled from the spec: \<^verbatim>\<open>Result\<close>, \<^verbatim>\<open>success\<close> and \<^verbatim>\<open>failure\<close> are imported from
  \<^verbatim>\<open>../types\<close>, which is not among the sources. The spec has a Result tagged as exactly one
  of \<^verbatim>\<open>Success{value}\<close> and \<^verbatim>\<open>Failure{error}\<close>, built by \<^verbatim>\<open>success(value)\<close> and
  \<^verbatim>\<open>failure(error)\<close>.
\<close>

datatype ('t, 'e) Result = Success 't | Failure 'e

definition success :: "'t \<Rightarrow> ('t, 'e) Result" where
  "success v = Success v"

definition failure :: "'e \<Rightarrow> ('t, 'e) Result" where
  "failure e = Failure e"

text \<open>
  The schema is a value of the external validator library. \<^verbatim>\<open>parseArgs\<close> uses one
  method of it, \<^verbatim>\<open>safeParse\<close>, whose return is either \<^verbatim>\<open>{ success: true, data }\<close> or
  \<^verbatim>\<open>{ success: false, error }\<close> with a string \<^verbatim>\<open>error.message\<close>. A schema is therefore a
  record holding that method; what the method accepts is left to the schema.
\<close>

datatype 'a SafeParseReturn = SafeParseSuccess 'a | SafeParseError string

record ('i, 'a) ZodType =
  safeParse :: "'i \<Rightarrow> 'a SafeParseReturn"

text \<open>
  \<^verbatim>\<open>
  export function parseArgs(schema, input) {
    const parsed = schema.safeParse(input);
    if (!parsed.success) {
      return failure(
        exception({ name: "ValidatedArgsError", message: parsed.error.message })
      );
    }
    return success(parsed.data);
  }
  \<close>
\<close>

definition parseArgs :: "('i, 'a) ZodType \<Rightarrow> 'i \<Rightarrow> ('a, Exception) Result" where
  "parseArgs schema input =
     (case safeParse schema input of
        SafeParseError msg \<Rightarrow>
          failure
            (exception
               (ExceptionConfig ''ValidatedArgsError'' None None (Some msg) None None None))
      | SafeParseSuccess data \<Rightarrow> success data)"

section \<open>The same module over an object store\<close>

text \<open>
  In the program an Exception is an object reached through a reference, and its \<^verbatim>\<open>stack\<close>
  and \<^verbatim>\<open>notes\<close> are array objects that several Exceptions may share:
  \<^verbatim>\<open>config.stack ?? []\<close> keeps the caller's array when there is one. Whether a call
  changes an Exception that already exists is a question about this store, so the three
  functions that build Exceptions are modelled a second time with the store explicit.
  A store is the list of the objects allocated so far, a reference is a position in
  it, and the only way the functions below touch the store is to allocate: the source
  has no assignment to a property or an array element.
\<close>

type_synonym ref = nat

record config_object =
  k_name :: string
  k_namespace :: "string option"
  k_code :: "string option"
  k_message :: "string option"
  k_cause :: "ref option"
  k_stack :: "ref option"
  k_notes :: "ref option"

record exception_object =
  x_name :: string
  x_namespace :: "string option"
  x_code :: "string option"
  x_message :: "string option"
  x_cause :: "ref option"
  x_stack :: ref
  x_notes :: ref
  x_config :: ref

datatype cell =
  ExceptionArray "ref list"
| StringArray "string list"
| ConfigObject config_object
| ExceptionObject exception_object

type_synonym store = "cell list"

definition lookup :: "store \<Rightarrow> ref \<Rightarrow> cell option" where
  "lookup h r = (if r < length h then Some (h ! r) else None)"

definition alloc :: "store \<Rightarrow> cell \<Rightarrow> store \<times> ref" where
  "alloc h c = (h @ [c], length h)"

text \<open>
  \<^verbatim>\<open>exception(config)\<close>: \<^verbatim>\<open>config.stack ?? []\<close> and \<^verbatim>\<open>config.notes ?? []\<close> allocate an empty
  array only when the property is missing; the object literal allocates \<^verbatim>\<open>base\<close>, whose
  closures keep the reference to \<^verbatim>\<open>config\<close>. The result is \<open>None\<close> when \<open>config\<close> does not
  refer to a configuration object, which the types of the program rule out.
\<close>

definition exception_h :: "store \<Rightarrow> ref \<Rightarrow> (store \<times> ref) option" where
  "exception_h h config =
     (case lookup h config of
        Some (ConfigObject c) \<Rightarrow>
          (let (h1, stack') = (case k_stack c of
                                 Some a \<Rightarrow> (h, a)
                               | None \<Rightarrow> alloc h (ExceptionArray []));
               (h2, notes') = (case k_notes c of
                                 Some a \<Rightarrow> (h1, a)
                               | None \<Rightarrow> alloc h1 (StringArray []))
           in Some (alloc h2
                (ExceptionObject
                   \<lparr> x_name = k_name c, x_namespace = k_namespace c, x_code = k_code c,
                     x_message = k_message c, x_cause = k_cause c,
                     x_stack = stack', x_notes = notes', x_config = config \<rparr>)))
      | _ \<Rightarrow> None)"

text \<open>
  \<^verbatim>\<open>base.from(cause)\<close>: the array literal \<^verbatim>\<open>[...base.stack, cause]\<close> is a new array, the
  object literal \<^verbatim>\<open>{ ...config, cause, stack: ... }\<close> a new configuration object, and
  \<^verbatim>\<open>exception\<close> builds the new Exception from it.
\<close>

definition from_h :: "store \<Rightarrow> ref \<Rightarrow> ref \<Rightarrow> (store \<times> ref) option" where
  "from_h h base cause' =
     (case lookup h base of
        Some (ExceptionObject b) \<Rightarrow>
          (case lookup h (x_config b) of
             Some (ConfigObject c) \<Rightarrow>
               (case lookup h (x_stack b) of
                  Some (ExceptionArray xs) \<Rightarrow>
                    (let (h1, arr) = alloc h (ExceptionArray (xs @ [cause']));
                         (h2, cfg) = alloc h1
                            (ConfigObject (c\<lparr> k_cause := Some cause', k_stack := Some arr \<rparr>))
                     in exception_h h2 cfg)
                | _ \<Rightarrow> None)
           | _ \<Rightarrow> None)
      | _ \<Rightarrow> None)"

text \<open>\<^verbatim>\<open>base.addNote(note)\<close>, in the same way with \<^verbatim>\<open>[...base.notes, note]\<close>.\<close>

definition addNote_h :: "store \<Rightarrow> ref \<Rightarrow> string \<Rightarrow> (store \<times> ref) option" where
  "addNote_h h base note' =
     (case lookup h base of
        Some (ExceptionObject b) \<Rightarrow>
          (case lookup h (x_config b) of
             Some (ConfigObject c) \<Rightarrow>
               (case lookup h (x_notes b) of
                  Some (StringArray ns) \<Rightarrow>
                    (let (h1, arr) = alloc h (StringArray (ns @ [note']));
                         (h2, cfg) = alloc h1 (ConfigObject (c\<lparr> k_notes := Some arr \<rparr>))
                     in exception_h h2 cfg)
                | _ \<Rightarrow> None)
           | _ \<Rightarrow> None)
      | _ \<Rightarrow> None)"

text \<open>
  A reference is a well-formed Exception of a store when it leads to an Exception object
  whose stack is an array of Exceptions and whose notes are an array of strings, and
  whose captured configuration is in the store and, where it has a stack or notes,
  has the arrays of the object (\<^verbatim>\<open>exception\<close> puts \<^verbatim>\<open>config.stack\<close> and
  \<^verbatim>\<open>config.notes\<close> into \<^verbatim>\<open>base\<close> when they are there). This is what the static types and
  \<^verbatim>\<open>exception\<close> guarantee of every \<^verbatim>\<open>Exception\<close>.
\<close>

definition same_or_missing :: "ref option \<Rightarrow> ref \<Rightarrow> bool" where
  "same_or_missing x a = (case x of None \<Rightarrow> True | Some a' \<Rightarrow> a' = a)"

definition is_exception_array :: "store \<Rightarrow> ref \<Rightarrow> bool" where
  "is_exception_array h a = (case lookup h a of Some (ExceptionArray xs) \<Rightarrow> True | _ \<Rightarrow> False)"

definition is_string_array :: "store \<Rightarrow> ref \<Rightarrow> bool" where
  "is_string_array h a = (case lookup h a of Some (StringArray ns) \<Rightarrow> True | _ \<Rightarrow> False)"

definition valid_exception :: "store \<Rightarrow> ref \<Rightarrow> bool" where
  "valid_exception h e =
     (case lookup h e of
        Some (ExceptionObject b) \<Rightarrow>
          (case lookup h (x_config b) of
             Some (ConfigObject c) \<Rightarrow>
               is_exception_array h (x_stack b) \<and> is_string_array h (x_notes b) \<and>
               same_or_missing (k_stack c) (x_stack b) \<and> same_or_missing (k_notes c) (x_notes b)
           | _ \<Rightarrow> False)
      | _ \<Rightarrow> False)"

text \<open>The stack and the notes of an Exception, read through its references.\<close>

definition stack_of :: "store \<Rightarrow> ref \<Rightarrow> ref list option" where
  "stack_of h e =
     (case lookup h e of
        Some (ExceptionObject b) \<Rightarrow>
          (case lookup h (x_stack b) of Some (ExceptionArray xs) \<Rightarrow> Some xs | _ \<Rightarrow> None)
      | _ \<Rightarrow> None)"

definition notes_of :: "store \<Rightarrow> ref \<Rightarrow> string list option" where
  "notes_of h e =
     (case lookup h e of
        Some (ExceptionObject b) \<Rightarrow>
          (case lookup h (x_notes b) of Some (StringArray ns) \<Rightarrow> Some ns | _ \<Rightarrow> None)
      | _ \<Rightarrow> None)"

text \<open>
  The value an Exception of the store stands for. A reference represents a value of the
  first model when the object it leads to has the properties of the value, its cause,
  the elements of its stack array and its captured configuration represent those of
  the value, and its notes array holds the notes of the value.
\<close>

inductive represents :: "store \<Rightarrow> ref \<Rightarrow> Exception \<Rightarrow> bool"
  and represents_config :: "store \<Rightarrow> ref \<Rightarrow> ExceptionConfig \<Rightarrow> bool"
  and represents_stack :: "store \<Rightarrow> ref \<Rightarrow> Exception list \<Rightarrow> bool"
  for h :: store
where
  rep_exception:
  "lookup h r = Some (ExceptionObject b) \<Longrightarrow>
   rel_option (represents h) (x_cause b) cau \<Longrightarrow>
   represents_stack h (x_stack b) st \<Longrightarrow>
   lookup h (x_notes b) = Some (StringArray ns) \<Longrightarrow>
   represents_config h (x_config b) cfg \<Longrightarrow>
   represents h r
     (Exception (x_name b) (x_namespace b) (x_code b) (x_message b) cau st ns cfg)"
| rep_config:
  "lookup h k = Some (ConfigObject cf) \<Longrightarrow>
   rel_option (represents h) (k_cause cf) cau \<Longrightarrow>
   rel_option (represents_stack h) (k_stack cf) st \<Longrightarrow>
   rel_option (\<lambda>a ns. lookup h a = Some (StringArray ns)) (k_notes cf) ns \<Longrightarrow>
   represents_config h k
     (ExceptionConfig (k_name cf) (k_namespace cf) (k_code cf) (k_message cf) cau st ns)"
| rep_array:
  "lookup h a = Some (ExceptionArray xs) \<Longrightarrow> list_all2 (represents h) xs st \<Longrightarrow>
   represents_stack h a st"

section \<open>Check combinators\<close>

text \<open>
  Modelled from the spec: \<^verbatim>\<open>checkAll\<close> and \<^verbatim>\<open>checkAny\<close> are not among the sources (the
  guides only call them), so they are written from section 4.5 of the spec. A Check is
  invoked with a context and raw arguments and produces a \<^verbatim>\<open>Result<Unit, Exception>\<close>.
  Handlers have side effects (the spec observes them through a counter), so a Check also
  takes the state of the world its handler acts on and returns the state it leaves;
  awaiting a check before starting the next is sequential composition. A combinator is
  itself a Check and passes its own context and arguments to each member.
\<close>

type_synonym ('c, 'a, 's) Check = "'c \<Rightarrow> 'a \<Rightarrow> 's \<Rightarrow> (unit, Exception) Result \<times> 's"

text \<open>
  Modelled from the spec: "evaluate checks strictly in the given order, one at a time; on
  the first failure, stop and return that failure unchanged; if every check succeeds,
  return a single \<^verbatim>\<open>success(unit)\<close>".
\<close>

fun checkAll :: "('c, 'a, 's) Check list \<Rightarrow> ('c, 'a, 's) Check" where
  "checkAll [] ctx args s = (success (), s)"
| "checkAll (c # cs) ctx args s =
     (case c ctx args s of
        (Failure e, s') \<Rightarrow> (Failure e, s')
      | (Success u, s') \<Rightarrow> checkAll cs ctx args s')"

text \<open>
  Modelled from the spec: "evaluate checks strictly in order; on the first success, stop
  and return that success immediately; if every check fails, return a failure built by
  grouping all collected failures, in evaluation order, via
  \<^verbatim>\<open>group("checkAny", allFailures)\<close> wrapped as a single Exception. Given zero checks, fails
  with a configuration-kind Exception (\<^verbatim>\<open>EmptyCheckSetError\<close>)". The spec does not say how a
  group is wrapped as an Exception, so the wrapping is the parameter \<open>wrap\<close>. The loop
  carries the failures collected so far; they are empty at the end only when there was
  no check at all.
\<close>

fun checkAny_loop ::
  "(ExceptionGroup \<Rightarrow> Exception) \<Rightarrow> Exception list \<Rightarrow> ('c, 'a, 's) Check list \<Rightarrow> ('c, 'a, 's) Check"
where
  "checkAny_loop wrap allFailures [] ctx args s =
     (case allFailures of
        [] \<Rightarrow>
          (failure
             (exception (ExceptionConfig ''EmptyCheckSetError'' None None None None None None)),
           s)
      | f # fs \<Rightarrow> (failure (wrap (group ''checkAny'' (f, fs))), s))"
| "checkAny_loop wrap allFailures (c # cs) ctx args s =
     (case c ctx args s of
        (Success u, s') \<Rightarrow> (Success u, s')
      | (Failure e, s') \<Rightarrow> checkAny_loop wrap (allFailures @ [e]) cs ctx args s')"

text \<open>
  Modelled from the spec: \<^verbatim>\<open>checkAny(checks)\<close> is the loop started with no failure
  collected.
\<close>

definition checkAny ::
  "(ExceptionGroup \<Rightarrow> Exception) \<Rightarrow> ('c, 'a, 's) Check list \<Rightarrow> ('c, 'a, 's) Check"
where
  "checkAny wrap checks = checkAny_loop wrap [] checks"

text \<open>
  What it means for the members of a sequence to be run one after the other, each in the
  state its predecessor left: \<open>succeed_all\<close> is the final state when each of them
  succeeds, \<open>fail_all\<close> the errors in the order of the run and the final state when each
  of them fails.
\<close>

fun succeed_all :: "('c, 'a, 's) Check list \<Rightarrow> 'c \<Rightarrow> 'a \<Rightarrow> 's \<Rightarrow> 's option" where
  "succeed_all [] ctx args s = Some s"
| "succeed_all (c # cs) ctx args s =
     (case c ctx args s of
        (Success u, s') \<Rightarrow> succeed_all cs ctx args s'
      | (Failure e, s') \<Rightarrow> None)"

fun fail_all :: "('c, 'a, 's) Check list \<Rightarrow> 'c \<Rightarrow> 'a \<Rightarrow> 's \<Rightarrow> (Exception list \<times> 's) option" where
  "fail_all [] ctx args s = Some ([], s)"
| "fail_all (c # cs) ctx args s =
     (case c ctx args s of
        (Success u, s') \<Rightarrow> None
      | (Failure e, s') \<Rightarrow>
          (case fail_all cs ctx args s' of
             None \<Rightarrow> None
           | Some (es, s'') \<Rightarrow> Some (e # es, s'')))"

section \<open>Repeated derivation\<close>

text \<open>
  An Exception is re-wrapped by a sequence of derivations, each of them a call of
  \<^verbatim>\<open>from\<close> with some cause or of \<^verbatim>\<open>addNote\<close> with some note on the result of the previous
  one.
\<close>

datatype Derivation = From Exception | AddNote string

fun derive :: "Exception \<Rightarrow> Derivation \<Rightarrow> Exception" where
  "derive e (From c) = from_exn e c"
| "derive e (AddNote n) = addNote e n"

definition rewrap :: "Exception \<Rightarrow> Derivation list \<Rightarrow> Exception" where
  "rewrap e ds = foldl derive e ds"

section \<open>Example values\<close>

text \<open>
  A store holding one Exception built by \<^verbatim>\<open>exception({ name: "A" })\<close>: the configuration
  at 0, the two empty arrays allocated by \<^verbatim>\<open>??\<close> at 1 and 2, the Exception at 3.
\<close>

definition example_store :: store where
  "example_store =
     [ConfigObject \<lparr> k_name = ''A'', k_namespace = None, k_code = None, k_message = None,
                     k_cause = None, k_stack = None, k_notes = None \<rparr>,
      ExceptionArray [],
      StringArray [],
      ExceptionObject \<lparr> x_name = ''A'', x_namespace = None, x_code = None, x_message = None,
                        x_cause = None, x_stack = 1, x_notes = 2, x_config = 0 \<rparr>]"

text \<open>A schema whose \<^verbatim>\<open>safeParse\<close> accepts the non-empty strings.\<close>

definition nonempty_schema :: "(string, string) ZodType" where
  "nonempty_schema =
     \<lparr> safeParse = (\<lambda>i. if i = [] then SafeParseError ''Required'' else SafeParseSuccess i) \<rparr>"

text \<open>
  Two checks over a counter of handler invocations: each adds one to the counter when
  it is invoked; \<open>allow\<close> succeeds and \<open>deny e\<close> fails with \<open>e\<close>.
\<close>

definition allow :: "(unit, unit, nat) Check" where
  "allow ctx args n = (Success (), n + 1)"

definition deny :: "Exception \<Rightarrow> (unit, unit, nat) Check" where
  "deny e ctx args n = (Failure e, n + 1)"

definition denied :: "string \<Rightarrow> Exception" where
  "denied n = exception (ExceptionConfig n None None None None None None)"

text \<open>One way to wrap a group as an Exception: its name, with the members as the stack.\<close>

definition wrap_as_stack :: "ExceptionGroup \<Rightarrow> Exception" where
  "wrap_as_stack g =
     exception
       (ExceptionConfig (g_name g) None None None None (Some (elements (g_exceptions g))) None)"

section \<open>Cause chains\<close>

text \<open>
  C1: for every Exception \<open>e\<close> and Exceptions \<open>c1\<close>, \<open>c2\<close>, \<open>e.from(c1)\<close> has cause \<open>c1\<close> and its
  stack is the stack of \<open>e\<close> with \<open>c1\<close> appended at the end, one element longer; chaining
  \<open>e.from(c1).from(c2)\<close> gives the stack of \<open>e\<close> followed by \<open>c1\<close> and then \<open>c2\<close>.
\<close>

theorem from_appends_cause:
  "cause (from_exn e c1) = Some c1 \<and>
   stack (from_exn e c1) = stack e @ [c1] \<and>
   length (stack (from_exn e c1)) = length (stack e) + 1 \<and>
   cause (from_exn (from_exn e c1) c2) = Some c2 \<and>
   stack (from_exn (from_exn e c1) c2) = stack e @ [c1, c2]"
  by (simp add: from_exn_def exception_def nullish_or_empty_def)

section \<open>Notes\<close>

text \<open>
  C8: for every Exception \<open>e\<close> (a value of \<^verbatim>\<open>exception\<close>, which \<^verbatim>\<open>from\<close> and \<^verbatim>\<open>addNote\<close>
  return as well) and every string \<open>n\<close>, \<open>e.addNote(n)\<close> has the notes of \<open>e\<close> with \<open>n\<close>
  appended at the end, and the name, namespace, code, message, cause and stack of \<open>e\<close>.
\<close>

theorem addNote_appends_note:
  "notes_seq (addNote (exception config) n) = notes_seq (exception config) @ [n] \<and>
   name (addNote (exception config) n) = name (exception config) \<and>
   namespace (addNote (exception config) n) = namespace (exception config) \<and>
   code (addNote (exception config) n) = code (exception config) \<and>
   message (addNote (exception config) n) = message (exception config) \<and>
   cause (addNote (exception config) n) = cause (exception config) \<and>
   stack (addNote (exception config) n) = stack (exception config)"
  by (simp add: addNote_def exception_def nullish_or_empty_def)

section \<open>Kind comparison\<close>

text \<open>
  C2 as stated fails: the namespace that decides is the receiver's, not the comparand's.
  The receiver below has namespace \<open>X\<close>, the comparand has the same name and no
  namespace, so the claim makes them the same kind; \<^verbatim>\<open>is\<close> answers false.
\<close>

theorem is_comparand_without_namespace_counterexample:
  "name (exception (ExceptionConfig ''A'' None None None None None None))
     = name (exception (ExceptionConfig ''A'' (Some ''X'') None None None None None)) \<and>
   namespace (exception (ExceptionConfig ''A'' None None None None None None)) = None \<and>
   \<not> is_exn (exception (ExceptionConfig ''A'' (Some ''X'') None None None None None))
            (exception (ExceptionConfig ''A'' None None None None None None))"
  by (simp add: is_exn_def exception_def truthy_def)

text \<open>
  C2, amended: for every Exception \<open>e\<close> and comparand \<open>other\<close>, \<open>e.is(other)\<close> is true if
  and only if the names match and, when the receiver \<open>e\<close> has a non-empty namespace, the
  namespace of \<open>other\<close> is that namespace; a receiver with no namespace, or an empty one,
  matches any namespace.
\<close>

theorem is_matches_receiver_namespace:
  "is_exn (exception config) other \<longleftrightarrow>
     name other = name (exception config) \<and>
     (truthy (namespace (exception config)) \<longrightarrow>
        namespace other = namespace (exception config))"
  by (simp add: is_exn_def exception_def)

theorem is_matches_receiver_namespace_witness:
  "truthy (namespace (exception (ExceptionConfig ''A'' (Some ''X'') None None None None None))) \<and>
   is_exn (exception (ExceptionConfig ''A'' (Some ''X'') None None None None None))
          (exception (ExceptionConfig ''A'' (Some ''X'') None (Some ''m'') None None None)) \<and>
   \<not> is_exn (exception (ExceptionConfig ''A'' (Some ''X'') None None None None None))
            (exception (ExceptionConfig ''A'' (Some ''Y'') None None None None None))"
  using
    is_matches_receiver_namespace
      [of "ExceptionConfig ''A'' (Some ''X'') None None None None None"
          "exception (ExceptionConfig ''A'' (Some ''X'') None (Some ''m'') None None None)"]
    is_matches_receiver_namespace
      [of "ExceptionConfig ''A'' (Some ''X'') None None None None None"
          "exception (ExceptionConfig ''A'' (Some ''Y'') None None None None None)"]
  by (simp add: exception_def truthy_def)

text \<open>One derivation keeps the name and the namespace that \<^verbatim>\<open>is\<close> reads.\<close>

lemma is_exn_derive: "is_exn (derive e d) x = is_exn e x"
  by (cases d) (simp_all add: is_exn_def from_exn_def addNote_def exception_def)

text \<open>
  C9: the kind of an Exception is stable under derivation. For every Exception \<open>e\<close>,
  cause \<open>c\<close>, note \<open>n\<close> and comparand \<open>x\<close>, \<open>e.from(c).is(x)\<close> and \<open>e.addNote(n).is(x)\<close> equal
  \<open>e.is(x)\<close>, and so does \<open>is(x)\<close> on \<open>e\<close> re-wrapped by any sequence of derivations.
\<close>

theorem is_stable_under_derivation:
  "is_exn (from_exn e c) x = is_exn e x \<and>
   is_exn (addNote e n) x = is_exn e x \<and>
   is_exn (rewrap e ds) x = is_exn e x"
proof -
  have "is_exn (foldl derive e ds) x = is_exn e x"
    by (induction ds arbitrary: e) (simp_all add: is_exn_derive)
  then show ?thesis
    by (simp add: rewrap_def is_exn_def from_exn_def addNote_def exception_def)
qed

section \<open>Exception spaces and raise\<close>

text \<open>
  C7 as stated fails in its last part: \<^verbatim>\<open>define\<close> is not the only way to an Exception
  with a namespace. \<^verbatim>\<open>ExceptionConfig\<close> has an optional \<^verbatim>\<open>namespace\<close> and \<^verbatim>\<open>exception\<close>
  copies it, so \<^verbatim>\<open>exception({ name: "A", namespace: "S" })\<close> has the namespace \<open>S\<close> with no
  space involved, and is the very Exception that \<^verbatim>\<open>define({ name: "A" })\<close> of a space named
  \<open>S\<close> returns.
\<close>

theorem namespace_without_define_counterexample:
  "namespace (exception (ExceptionConfig ''A'' (Some ''S'') None None None None None)) = Some ''S'' \<and>
   exception (ExceptionConfig ''A'' (Some ''S'') None None None None None)
     = s_define (exceptionSpace \<lparr> sc_name = ''S'', sc_severity = Critical \<rparr>)
         (ExceptionConfig ''A'' None None None None None None)"
  by (simp add: exception_def exceptionSpace_def)

text \<open>
  C7, amended: for every space \<open>s = exceptionSpace(space)\<close> and every Exception
  configuration, with a namespace or without, the Exception returned by \<open>s.define\<close> has
  the name of the space as its namespace, and \<open>s\<close> exposes the declared severity and
  name of the space. \<^verbatim>\<open>define\<close> is the only operation that chooses a namespace itself:
  \<^verbatim>\<open>exception\<close> copies the namespace of its configuration, present or not, \<^verbatim>\<open>from\<close> and
  \<^verbatim>\<open>addNote\<close> keep the namespace of the receiver and \<^verbatim>\<open>raise\<close> returns its argument.
\<close>

theorem define_stamps_space_name:
  "namespace (s_define (exceptionSpace space) config) = Some (sc_name space) \<and>
   s_severity (exceptionSpace space) = sc_severity space \<and>
   s_name (exceptionSpace space) = sc_name space \<and>
   namespace (exception config) = c_namespace config \<and>
   namespace (from_exn (exception config) c) = namespace (exception config) \<and>
   namespace (addNote (exception config) n) = namespace (exception config) \<and>
   namespace (raise e) = namespace e"
  by (simp add: exceptionSpace_def exception_def from_exn_def addNote_def raise_def)

text \<open>
  C10: \<^verbatim>\<open>raise\<close> is the identity on Exceptions. For every Exception \<open>e\<close>, \<open>raise(e)\<close> is
  \<open>e\<close> itself: nothing is thrown (the function is total), derived or built.
\<close>

theorem raise_is_identity: "raise e = e"
  by (simp add: raise_def)

section \<open>Argument validation\<close>

text \<open>
  C3: for every schema and untyped input, \<^verbatim>\<open>parseArgs\<close> returns Success with the typed
  value exactly when the input matches the schema, that is when the schema's
  \<^verbatim>\<open>safeParse\<close> succeeds with that value; otherwise it returns a Failure whose Exception
  has the name \<open>ValidatedArgsError\<close>, the validator's diagnostic text as message, and no
  namespace.
\<close>

theorem parseArgs_adapts_validator:
  "(\<forall>v. safeParse schema input = SafeParseSuccess v \<longrightarrow> parseArgs schema input = Success v) \<and>
   (\<forall>msg. safeParse schema input = SafeParseError msg \<longrightarrow>
      (\<exists>e. parseArgs schema input = Failure e \<and>
           name e = ''ValidatedArgsError'' \<and> message e = Some msg \<and> namespace e = None)) \<and>
   ((\<exists>v. parseArgs schema input = Success v) \<longleftrightarrow>
      (\<exists>v. safeParse schema input = SafeParseSuccess v))"
  by (cases "safeParse schema input")
     (simp_all add: parseArgs_def success_def failure_def exception_def)

theorem parseArgs_adapts_validator_witness:
  "safeParse nonempty_schema ''u1'' = SafeParseSuccess ''u1'' \<and>
   parseArgs nonempty_schema ''u1'' = Success ''u1'' \<and>
   safeParse nonempty_schema [] = SafeParseError ''Required'' \<and>
   (\<exists>e. parseArgs nonempty_schema [] = Failure e \<and>
        name e = ''ValidatedArgsError'' \<and> message e = Some ''Required'' \<and> namespace e = None)"
  using parseArgs_adapts_validator [of nonempty_schema "''u1''"]
    parseArgs_adapts_validator [of nonempty_schema "[]"]
  by (simp add: nonempty_schema_def)

section \<open>Derivation leaves the receiver as it was\<close>

lemma lookup_append: "r < length h \<Longrightarrow> lookup (h @ ext) r = lookup h r"
  by (simp add: lookup_def nth_append)

lemma lookup_Some_less: "lookup h r = Some c \<Longrightarrow> r < length h"
  by (simp add: lookup_def split: if_splits)

lemma is_exception_arrayD:
  "is_exception_array h a \<Longrightarrow> \<exists>xs. lookup h a = Some (ExceptionArray xs)"
  by (auto simp: is_exception_array_def split: option.splits cell.splits)

lemma is_string_arrayD:
  "is_string_array h a \<Longrightarrow> \<exists>ns. lookup h a = Some (StringArray ns)"
  by (auto simp: is_string_array_def split: option.splits cell.splits)

lemma valid_exceptionE:
  assumes "valid_exception h e"
  obtains b cf xs ns where
    "lookup h e = Some (ExceptionObject b)"
    "lookup h (x_config b) = Some (ConfigObject cf)"
    "lookup h (x_stack b) = Some (ExceptionArray xs)"
    "lookup h (x_notes b) = Some (StringArray ns)"
    "same_or_missing (k_stack cf) (x_stack b)"
    "same_or_missing (k_notes cf) (x_notes b)"
proof -
  from assms obtain b where b: "lookup h e = Some (ExceptionObject b)"
    by (auto simp: valid_exception_def split: option.splits cell.splits)
  with assms obtain cf where cf: "lookup h (x_config b) = Some (ConfigObject cf)"
    by (auto simp: valid_exception_def split: option.splits cell.splits)
  with assms b have r: "is_exception_array h (x_stack b)" "is_string_array h (x_notes b)"
    "same_or_missing (k_stack cf) (x_stack b)" "same_or_missing (k_notes cf) (x_notes b)"
    by (simp_all add: valid_exception_def)
  from r(1) obtain xs where "lookup h (x_stack b) = Some (ExceptionArray xs)"
    using is_exception_arrayD by blast
  moreover from r(2) obtain ns where "lookup h (x_notes b) = Some (StringArray ns)"
    using is_string_arrayD by blast
  ultimately show thesis using that b cf r by blast
qed

text \<open>The example store is what \<^verbatim>\<open>exception\<close> builds from a store holding the configuration.\<close>

lemma example_store_built:
  "exception_h
     [ConfigObject \<lparr> k_name = ''A'', k_namespace = None, k_code = None, k_message = None,
                     k_cause = None, k_stack = None, k_notes = None \<rparr>] 0
   = Some (example_store, 3)"
  by (simp add: exception_h_def lookup_def alloc_def example_store_def)

text \<open>An Exception of a store reads the same in every extension of the store.\<close>

lemma extension_keeps_exception:
  assumes "valid_exception h e"
  shows "lookup (h @ ext) e = lookup h e \<and> stack_of (h @ ext) e = stack_of h e \<and>
         notes_of (h @ ext) e = notes_of h e"
proof -
  from assms obtain b cf xs ns where
    b: "lookup h e = Some (ExceptionObject b)" and
    cf: "lookup h (x_config b) = Some (ConfigObject cf)" and
    st: "lookup h (x_stack b) = Some (ExceptionArray xs)" and
    nt: "lookup h (x_notes b) = Some (StringArray ns)"
    by (rule valid_exceptionE)
  have "lookup (h @ ext) e = lookup h e"
       "lookup (h @ ext) (x_stack b) = lookup h (x_stack b)"
       "lookup (h @ ext) (x_notes b) = lookup h (x_notes b)"
    using b st nt by (simp_all add: lookup_append lookup_Some_less)
  then show ?thesis using b by (simp add: stack_of_def notes_of_def)
qed

text \<open>
  \<^verbatim>\<open>from\<close> returns, and what it returns is the store extended by the new array, the new
  configuration, an empty notes array when the configuration has none, and the new
  Exception, whose stack is the old one with the cause appended.
\<close>

lemma from_h_extends:
  assumes "valid_exception h e"
  shows "\<exists>ext k. from_h h e c = Some (h @ ext, length h + k) \<and>
           valid_exception (h @ ext) (length h + k) \<and>
           stack_of (h @ ext) (length h + k) = map_option (\<lambda>xs. xs @ [c]) (stack_of h e)"
proof -
  from assms obtain b cf xs ns where
    b: "lookup h e = Some (ExceptionObject b)" and
    cf: "lookup h (x_config b) = Some (ConfigObject cf)" and
    st: "lookup h (x_stack b) = Some (ExceptionArray xs)" and
    nt: "lookup h (x_notes b) = Some (StringArray ns)" and
    sn: "same_or_missing (k_notes cf) (x_notes b)"
    by (rule valid_exceptionE)
  have old: "stack_of h e = Some xs"
    using b st by (simp add: stack_of_def)
  let ?c' = "cf\<lparr> k_cause := Some c, k_stack := Some (length h) \<rparr>"
  show ?thesis
  proof (cases "k_notes cf")
    case None
    let ?ext = "[ExceptionArray (xs @ [c]), ConfigObject ?c', StringArray [],
       ExceptionObject \<lparr> x_name = k_name cf, x_namespace = k_namespace cf, x_code = k_code cf,
         x_message = k_message cf, x_cause = Some c, x_stack = length h,
         x_notes = length h + 2, x_config = length h + 1 \<rparr>]"
    have "from_h h e c = Some (h @ ?ext, length h + 3)"
      using b cf st None by (simp add: from_h_def exception_h_def alloc_def lookup_def nth_append)
    moreover have "valid_exception (h @ ?ext) (length h + 3)"
      using None by (simp add: valid_exception_def is_exception_array_def is_string_array_def
          lookup_def nth_append same_or_missing_def)
    moreover have "stack_of (h @ ?ext) (length h + 3) = Some (xs @ [c])"
      by (simp add: stack_of_def lookup_def nth_append)
    ultimately show ?thesis using old by (metis option.simps(9))
  next
    case (Some a)
    with sn have a: "a = x_notes b" by (simp add: same_or_missing_def)
    let ?ext = "[ExceptionArray (xs @ [c]), ConfigObject ?c',
       ExceptionObject \<lparr> x_name = k_name cf, x_namespace = k_namespace cf, x_code = k_code cf,
         x_message = k_message cf, x_cause = Some c, x_stack = length h,
         x_notes = a, x_config = length h + 1 \<rparr>]"
    have "from_h h e c = Some (h @ ?ext, length h + 2)"
      using b cf st Some by (simp add: from_h_def exception_h_def alloc_def lookup_def nth_append)
    moreover have "valid_exception (h @ ?ext) (length h + 2)"
      using Some a nt lookup_Some_less [OF nt]
      by (simp add: valid_exception_def is_exception_array_def is_string_array_def
          lookup_def nth_append same_or_missing_def)
    moreover have "stack_of (h @ ?ext) (length h + 2) = Some (xs @ [c])"
      by (simp add: stack_of_def lookup_def nth_append)
    ultimately show ?thesis using old by (metis option.simps(9))
  qed
qed

text \<open>The same for \<^verbatim>\<open>addNote\<close>, with the notes in the place of the stack.\<close>

lemma addNote_h_extends:
  assumes "valid_exception h e"
  shows "\<exists>ext k. addNote_h h e n = Some (h @ ext, length h + k) \<and>
           valid_exception (h @ ext) (length h + k) \<and>
           notes_of (h @ ext) (length h + k) = map_option (\<lambda>ns. ns @ [n]) (notes_of h e)"
proof -
  from assms obtain b cf xs ns where
    b: "lookup h e = Some (ExceptionObject b)" and
    cf: "lookup h (x_config b) = Some (ConfigObject cf)" and
    st: "lookup h (x_stack b) = Some (ExceptionArray xs)" and
    nt: "lookup h (x_notes b) = Some (StringArray ns)" and
    ss: "same_or_missing (k_stack cf) (x_stack b)"
    by (rule valid_exceptionE)
  have old: "notes_of h e = Some ns"
    using b nt by (simp add: notes_of_def)
  let ?c' = "cf\<lparr> k_notes := Some (length h) \<rparr>"
  show ?thesis
  proof (cases "k_stack cf")
    case None
    let ?ext = "[StringArray (ns @ [n]), ConfigObject ?c', ExceptionArray [],
       ExceptionObject \<lparr> x_name = k_name cf, x_namespace = k_namespace cf, x_code = k_code cf,
         x_message = k_message cf, x_cause = k_cause cf, x_stack = length h + 2,
         x_notes = length h, x_config = length h + 1 \<rparr>]"
    have "addNote_h h e n = Some (h @ ?ext, length h + 3)"
      using b cf nt None
      by (simp add: addNote_h_def exception_h_def alloc_def lookup_def nth_append)
    moreover have "valid_exception (h @ ?ext) (length h + 3)"
      using None by (simp add: valid_exception_def is_exception_array_def is_string_array_def
          lookup_def nth_append same_or_missing_def)
    moreover have "notes_of (h @ ?ext) (length h + 3) = Some (ns @ [n])"
      by (simp add: notes_of_def lookup_def nth_append)
    ultimately show ?thesis using old by (metis option.simps(9))
  next
    case (Some a)
    with ss have a: "a = x_stack b" by (simp add: same_or_missing_def)
    let ?ext = "[StringArray (ns @ [n]), ConfigObject ?c',
       ExceptionObject \<lparr> x_name = k_name cf, x_namespace = k_namespace cf, x_code = k_code cf,
         x_message = k_message cf, x_cause = k_cause cf, x_stack = a,
         x_notes = length h, x_config = length h + 1 \<rparr>]"
    have "addNote_h h e n = Some (h @ ?ext, length h + 2)"
      using b cf nt Some
      by (simp add: addNote_h_def exception_h_def alloc_def lookup_def nth_append)
    moreover have "valid_exception (h @ ?ext) (length h + 2)"
      using Some a st lookup_Some_less [OF st]
      by (simp add: valid_exception_def is_exception_array_def is_string_array_def
          lookup_def nth_append same_or_missing_def)
    moreover have "notes_of (h @ ?ext) (length h + 2) = Some (ns @ [n])"
      by (simp add: notes_of_def lookup_def nth_append)
    ultimately show ?thesis using old by (metis option.simps(9))
  qed
qed

text \<open>
  C6: \<open>e.from(c)\<close> and \<open>e.addNote(n)\<close> never mutate \<open>e\<close>. For every well-formed Exception
  \<open>e\<close> of a store, each call returns; every object that was in the store before the call
  is in the store after it, unchanged, so \<open>e\<close> has all its fields and its stack and
  notes read as before; and the Exception returned is a new object, which was not in the
  store before, well-formed, with the cause appended to the stack (for \<^verbatim>\<open>from\<close>) or the
  note appended to the notes (for \<^verbatim>\<open>addNote\<close>).
\<close>

theorem derivation_never_mutates:
  assumes "valid_exception h e"
  shows
    "(\<exists>h' e'. from_h h e c = Some (h', e') \<and>
        (\<forall>r. r < length h \<longrightarrow> lookup h' r = lookup h r) \<and>
        lookup h' e = lookup h e \<and> stack_of h' e = stack_of h e \<and> notes_of h' e = notes_of h e \<and>
        lookup h e' = None \<and> valid_exception h' e' \<and>
        stack_of h' e' = map_option (\<lambda>xs. xs @ [c]) (stack_of h e)) \<and>
     (\<exists>h' e'. addNote_h h e n = Some (h', e') \<and>
        (\<forall>r. r < length h \<longrightarrow> lookup h' r = lookup h r) \<and>
        lookup h' e = lookup h e \<and> stack_of h' e = stack_of h e \<and> notes_of h' e = notes_of h e \<and>
        lookup h e' = None \<and> valid_exception h' e' \<and>
        notes_of h' e' = map_option (\<lambda>ns. ns @ [n]) (notes_of h e))"
proof
  from from_h_extends [OF assms, of c] obtain ext k where
    r: "from_h h e c = Some (h @ ext, length h + k)"
       "valid_exception (h @ ext) (length h + k)"
       "stack_of (h @ ext) (length h + k) = map_option (\<lambda>xs. xs @ [c]) (stack_of h e)"
    by blast
  have "\<forall>r. r < length h \<longrightarrow> lookup (h @ ext) r = lookup h r"
    by (simp add: lookup_append)
  moreover have "lookup h (length h + k) = None"
    by (simp add: lookup_def)
  ultimately show "\<exists>h' e'. from_h h e c = Some (h', e') \<and>
        (\<forall>r. r < length h \<longrightarrow> lookup h' r = lookup h r) \<and>
        lookup h' e = lookup h e \<and> stack_of h' e = stack_of h e \<and> notes_of h' e = notes_of h e \<and>
        lookup h e' = None \<and> valid_exception h' e' \<and>
        stack_of h' e' = map_option (\<lambda>xs. xs @ [c]) (stack_of h e)"
    using r extension_keeps_exception [OF assms, of ext] by blast
next
  from addNote_h_extends [OF assms, of n] obtain ext k where
    r: "addNote_h h e n = Some (h @ ext, length h + k)"
       "valid_exception (h @ ext) (length h + k)"
       "notes_of (h @ ext) (length h + k) = map_option (\<lambda>ns. ns @ [n]) (notes_of h e)"
    by blast
  have "\<forall>r. r < length h \<longrightarrow> lookup (h @ ext) r = lookup h r"
    by (simp add: lookup_append)
  moreover have "lookup h (length h + k) = None"
    by (simp add: lookup_def)
  ultimately show "\<exists>h' e'. addNote_h h e n = Some (h', e') \<and>
        (\<forall>r. r < length h \<longrightarrow> lookup h' r = lookup h r) \<and>
        lookup h' e = lookup h e \<and> stack_of h' e = stack_of h e \<and> notes_of h' e = notes_of h e \<and>
        lookup h e' = None \<and> valid_exception h' e' \<and>
        notes_of h' e' = map_option (\<lambda>ns. ns @ [n]) (notes_of h e)"
    using r extension_keeps_exception [OF assms, of ext] by blast
qed

theorem derivation_never_mutates_witness:
  "valid_exception example_store 3 \<and>
   (\<exists>h' e'. from_h example_store 3 3 = Some (h', e') \<and>
      lookup h' 3 = lookup example_store 3 \<and> stack_of h' 3 = Some [] \<and>
      lookup example_store e' = None \<and> stack_of h' e' = Some [3]) \<and>
   (\<exists>h' e'. addNote_h example_store 3 ''seen'' = Some (h', e') \<and>
      lookup h' 3 = lookup example_store 3 \<and> notes_of h' 3 = Some [] \<and>
      lookup example_store e' = None \<and> notes_of h' e' = Some [''seen''])"
proof -
  have v: "valid_exception example_store 3"
    by (simp add: valid_exception_def is_exception_array_def is_string_array_def
        same_or_missing_def lookup_def example_store_def)
  have s: "stack_of example_store 3 = Some []" "notes_of example_store 3 = Some []"
    by (simp_all add: stack_of_def notes_of_def lookup_def example_store_def)
  show ?thesis
    using v s derivation_never_mutates [OF v, of 3 "''seen''"] by (simp; blast)
qed

section \<open>The store model computes what the value model computes\<close>

text \<open>
  What a reference represents does not change when the store grows, and the three
  functions over the store return a reference that represents the value the
  corresponding function of the first model returns.
\<close>

lemma lookup_Some_append: "lookup h r = Some c \<Longrightarrow> lookup (h @ ext) r = Some c"
  by (simp add: lookup_def nth_append split: if_splits)

lemma represents_extend_all:
  "(represents h r E \<longrightarrow> represents (h @ ext) r E) \<and>
   (represents_config h k C \<longrightarrow> represents_config (h @ ext) k C) \<and>
   (represents_stack h a st \<longrightarrow> represents_stack (h @ ext) a st)"
proof (induction rule: represents_represents_config_represents_stack.induct)
  case (rep_exception r b cau st ns cfg)
  have "rel_option (represents (h @ ext)) (x_cause b) cau"
    using rep_exception.IH(2) by (rule option.rel_mono_strong) simp
  then show ?case
    using rep_exception
    by (intro represents_represents_config_represents_stack.rep_exception)
       (simp_all add: lookup_Some_append)
next
  case (rep_config k cf cau st ns)
  have 1: "rel_option (represents (h @ ext)) (k_cause cf) cau"
    using rep_config(2) by (rule option.rel_mono_strong) simp
  have 2: "rel_option (represents_stack (h @ ext)) (k_stack cf) st"
    using rep_config(3) by (rule option.rel_mono_strong) simp
  have 3: "rel_option (\<lambda>a ns. lookup (h @ ext) a = Some (StringArray ns)) (k_notes cf) ns"
    using rep_config(4) by (rule option.rel_mono_strong) (simp add: lookup_Some_append)
  show ?case
    using rep_config(1) 1 2 3
    by (intro represents_represents_config_represents_stack.rep_config)
       (simp_all add: lookup_Some_append)
next
  case (rep_array a xs st)
  have "list_all2 (represents (h @ ext)) xs st"
    using rep_array(2) by (rule list_all2_mono) simp
  then show ?case
    using rep_array(1)
    by (intro represents_represents_config_represents_stack.rep_array)
       (simp_all add: lookup_Some_append)
qed

lemma represents_extend: "represents h r E \<Longrightarrow> represents (h @ ext) r E"
  using represents_extend_all by blast


lemma represents_config_extend: "represents_config h k C \<Longrightarrow> represents_config (h @ ext) k C"
  using represents_extend_all by blast

lemma represents_stack_extend: "represents_stack h a st \<Longrightarrow> represents_stack (h @ ext) a st"
  using represents_extend_all by blast

lemma lookup_alloc: "lookup (h @ [c]) (length h) = Some c"
  by (simp add: lookup_def)

lemma exception_h_refines:
  assumes "represents_config h k cfg"
  shows "\<exists>ext e'. exception_h h k = Some (h @ ext, e') \<and> represents (h @ ext) e' (exception cfg)"
proof -
  from assms obtain cf cau st ns where
    cfg: "cfg = ExceptionConfig (k_name cf) (k_namespace cf) (k_code cf) (k_message cf) cau st ns" and
    cf: "lookup h k = Some (ConfigObject cf)" and
    rc: "rel_option (represents h) (k_cause cf) cau" and
    rs: "rel_option (represents_stack h) (k_stack cf) st" and
    rn: "rel_option (\<lambda>a ns. lookup h a = Some (StringArray ns)) (k_notes cf) ns"
    by (cases rule: represents_config.cases) blast
  obtain h1 sr where s1: "(case k_stack cf of Some a \<Rightarrow> (h, a)
                             | None \<Rightarrow> alloc h (ExceptionArray [])) = (h1, sr)"
    by (cases "case k_stack cf of Some a \<Rightarrow> (h, a) | None \<Rightarrow> alloc h (ExceptionArray [])")
  have e1: "\<exists>ext1. h1 = h @ ext1 \<and> represents_stack h1 sr (nullish_or_empty st)"
  proof (cases "k_stack cf")
    case None
    with rs have "st = None" by simp
    moreover from None s1 have "h1 = h @ [ExceptionArray []]" "sr = length h"
      by (simp_all add: alloc_def)
    moreover have "represents_stack (h @ [ExceptionArray []]) (length h) []"
      by (rule rep_array [where xs = "[]"]) (simp_all add: lookup_alloc)
    ultimately show ?thesis by (simp add: nullish_or_empty_def)
  next
    case (Some a)
    with rs obtain stv where "st = Some stv" "represents_stack h a stv"
      by (cases st) auto
    moreover from Some s1 have "h1 = h @ []" "sr = a" by simp_all
    ultimately show ?thesis by (simp add: nullish_or_empty_def)
  qed
  then obtain ext1 where h1: "h1 = h @ ext1" and
    st1: "represents_stack h1 sr (nullish_or_empty st)" by blast
  obtain h2 nr where s2: "(case k_notes cf of Some a \<Rightarrow> (h1, a)
                             | None \<Rightarrow> alloc h1 (StringArray [])) = (h2, nr)"
    by (cases "case k_notes cf of Some a \<Rightarrow> (h1, a) | None \<Rightarrow> alloc h1 (StringArray [])")
  have e2: "\<exists>ext2. h2 = h1 @ ext2 \<and> lookup h2 nr = Some (StringArray (nullish_or_empty ns))"
  proof (cases "k_notes cf")
    case None
    with rn have "ns = None" by simp
    moreover from None s2 have "h2 = h1 @ [StringArray []]" "nr = length h1"
      by (simp_all add: alloc_def)
    ultimately show ?thesis by (simp add: nullish_or_empty_def lookup_alloc)
  next
    case (Some a)
    with rn obtain nsv where "ns = Some nsv" "lookup h a = Some (StringArray nsv)"
      by (cases ns) auto
    moreover from Some s2 have "h2 = h1 @ []" "nr = a" by simp_all
    ultimately show ?thesis using h1 by (simp add: nullish_or_empty_def lookup_Some_append)
  qed
  then obtain ext2 where h2: "h2 = h1 @ ext2" and
    nt2: "lookup h2 nr = Some (StringArray (nullish_or_empty ns))" by blast
  let ?b = "\<lparr> x_name = k_name cf, x_namespace = k_namespace cf, x_code = k_code cf,
              x_message = k_message cf, x_cause = k_cause cf,
              x_stack = sr, x_notes = nr, x_config = k \<rparr>"
  let ?h' = "h2 @ [ExceptionObject ?b]"
  have run: "exception_h h k = Some (?h', length h2)"
    using cf s1 s2 by (simp add: exception_h_def alloc_def)
  have ext: "?h' = h @ (ext1 @ ext2 @ [ExceptionObject ?b])"
    using h1 h2 by simp
  have "represents ?h' (length h2)
          (Exception (x_name ?b) (x_namespace ?b) (x_code ?b) (x_message ?b) cau
             (nullish_or_empty st) (nullish_or_empty ns) cfg)"
  proof (rule rep_exception)
    show "lookup ?h' (length h2) = Some (ExceptionObject ?b)" by (rule lookup_alloc)
    have "rel_option (represents ?h') (k_cause cf) cau"
      using rc unfolding ext by (rule option.rel_mono_strong) (rule represents_extend)
    then show "rel_option (represents ?h') (x_cause ?b) cau" by simp
    have "represents_stack ?h' sr (nullish_or_empty st)"
      using st1 unfolding h2 by (simp add: represents_stack_extend)
    then show "represents_stack ?h' (x_stack ?b) (nullish_or_empty st)" by simp
    show "lookup ?h' (x_notes ?b) = Some (StringArray (nullish_or_empty ns))"
      using nt2 by (simp add: lookup_Some_append)
    have "represents_config ?h' k cfg"
      unfolding ext using assms by (rule represents_config_extend)
    then show "represents_config ?h' (x_config ?b) cfg" by simp
  qed
  then have "represents ?h' (length h2) (exception cfg)"
    by (simp add: exception_def cfg)
  with run ext show ?thesis by metis
qed


lemma from_h_refines:
  assumes "represents h e E" and "represents h c C"
  shows "\<exists>ext e'. from_h h e c = Some (h @ ext, e') \<and> represents (h @ ext) e' (from_exn E C)"
proof -
  from assms(1) obtain b cau st ns cfg where
    E: "E = Exception (x_name b) (x_namespace b) (x_code b) (x_message b) cau st ns cfg" and
    b: "lookup h e = Some (ExceptionObject b)" and
    bs: "represents_stack h (x_stack b) st" and
    bc: "represents_config h (x_config b) cfg"
    by (cases rule: represents.cases) blast
  from bs obtain xs where
    xs: "lookup h (x_stack b) = Some (ExceptionArray xs)" and
    xr: "list_all2 (represents h) xs st"
    by (cases rule: represents_stack.cases) blast
  from bc obtain cf ccau cst cns where
    cfg: "cfg = ExceptionConfig (k_name cf) (k_namespace cf) (k_code cf) (k_message cf)
                  ccau cst cns" and
    cf: "lookup h (x_config b) = Some (ConfigObject cf)" and
    rn: "rel_option (\<lambda>a ns. lookup h a = Some (StringArray ns)) (k_notes cf) cns"
    by (cases rule: represents_config.cases) blast
  let ?cf' = "cf\<lparr> k_cause := Some c, k_stack := Some (length h) \<rparr>"
  let ?new = "[ExceptionArray (xs @ [c]), ConfigObject ?cf']"
  let ?h2 = "h @ ?new"
  let ?cfg' = "ExceptionConfig (k_name ?cf') (k_namespace ?cf') (k_code ?cf') (k_message ?cf')
                 (Some C) (Some (st @ [C])) cns"
  have run: "from_h h e c = exception_h ?h2 (length h + 1)"
    using b cf xs by (simp add: from_h_def alloc_def)
  have c2: "represents ?h2 c C"
    using assms(2) by (rule represents_extend)
  have "list_all2 (represents ?h2) xs st"
    using xr by (rule list_all2_mono) (rule represents_extend)
  with c2 have "list_all2 (represents ?h2) (xs @ [c]) (st @ [C])"
    by (simp add: list_all2_appendI)
  moreover have "lookup ?h2 (length h) = Some (ExceptionArray (xs @ [c]))"
    by (simp add: lookup_def)
  ultimately have st2: "represents_stack ?h2 (length h) (st @ [C])"
    by (rule rep_array [rotated])
  have "represents_config ?h2 (length h + 1) ?cfg'"
  proof (rule rep_config)
    show "lookup ?h2 (length h + 1) = Some (ConfigObject ?cf')"
      by (simp add: lookup_def nth_append)
    show "rel_option (represents ?h2) (k_cause ?cf') (Some C)"
      using c2 by simp
    show "rel_option (represents_stack ?h2) (k_stack ?cf') (Some (st @ [C]))"
      using st2 by simp
    have "rel_option (\<lambda>a ns. lookup ?h2 a = Some (StringArray ns)) (k_notes cf) cns"
      using rn by (rule option.rel_mono_strong) (rule lookup_Some_append)
    then show "rel_option (\<lambda>a ns. lookup ?h2 a = Some (StringArray ns)) (k_notes ?cf') cns"
      by simp
  qed
  from exception_h_refines [OF this] obtain ext e' where
    r: "exception_h ?h2 (length h + 1) = Some (?h2 @ ext, e')"
       "represents (?h2 @ ext) e' (exception ?cfg')"
    by blast
  have "from_exn E C = exception ?cfg'"
    by (simp add: from_exn_def E cfg)
  with r run have "from_h h e c = Some (h @ (?new @ ext), e') \<and>
      represents (h @ (?new @ ext)) e' (from_exn E C)"
    by simp
  then show ?thesis by blast
qed

lemma addNote_h_refines:
  assumes "represents h e E"
  shows "\<exists>ext e'. addNote_h h e n = Some (h @ ext, e') \<and>
           represents (h @ ext) e' (addNote E n)"
proof -
  from assms(1) obtain b cau st ns cfg where
    E: "E = Exception (x_name b) (x_namespace b) (x_code b) (x_message b) cau st ns cfg" and
    b: "lookup h e = Some (ExceptionObject b)" and
    bn: "lookup h (x_notes b) = Some (StringArray ns)" and
    bc: "represents_config h (x_config b) cfg"
    by (cases rule: represents.cases) blast
  from bc obtain cf ccau cst cns where
    cfg: "cfg = ExceptionConfig (k_name cf) (k_namespace cf) (k_code cf) (k_message cf)
                  ccau cst cns" and
    cf: "lookup h (x_config b) = Some (ConfigObject cf)" and
    rc: "rel_option (represents h) (k_cause cf) ccau" and
    rs: "rel_option (represents_stack h) (k_stack cf) cst"
    by (cases rule: represents_config.cases) blast
  let ?cf' = "cf\<lparr> k_notes := Some (length h) \<rparr>"
  let ?new = "[StringArray (ns @ [n]), ConfigObject ?cf']"
  let ?h2 = "h @ ?new"
  let ?cfg' = "ExceptionConfig (k_name ?cf') (k_namespace ?cf') (k_code ?cf') (k_message ?cf')
                 ccau cst (Some (ns @ [n]))"
  have run: "addNote_h h e n = exception_h ?h2 (length h + 1)"
    using b cf bn by (simp add: addNote_h_def alloc_def)
  have "represents_config ?h2 (length h + 1) ?cfg'"
  proof (rule rep_config)
    show "lookup ?h2 (length h + 1) = Some (ConfigObject ?cf')"
      by (simp add: lookup_def nth_append)
    have "rel_option (represents ?h2) (k_cause cf) ccau"
      using rc by (rule option.rel_mono_strong) (rule represents_extend)
    then show "rel_option (represents ?h2) (k_cause ?cf') ccau" by simp
    have "rel_option (represents_stack ?h2) (k_stack cf) cst"
      using rs by (rule option.rel_mono_strong) (rule represents_stack_extend)
    then show "rel_option (represents_stack ?h2) (k_stack ?cf') cst" by simp
    show "rel_option (\<lambda>a ns. lookup ?h2 a = Some (StringArray ns)) (k_notes ?cf')
            (Some (ns @ [n]))"
      by (simp add: lookup_def)
  qed
  from exception_h_refines [OF this] obtain ext e' where
    r: "exception_h ?h2 (length h + 1) = Some (?h2 @ ext, e')"
       "represents (?h2 @ ext) e' (exception ?cfg')"
    by blast
  have "addNote E n = exception ?cfg'"
    by (simp add: addNote_def E cfg)
  with r run have "addNote_h h e n = Some (h @ (?new @ ext), e') \<and>
      represents (h @ (?new @ ext)) e' (addNote E n)"
    by simp
  then show ?thesis by blast
qed

section \<open>Short-circuit evaluation of the combinators\<close>

lemma checkAll_first_failure:
  "succeed_all pre ctx args s = Some s1 \<Longrightarrow> c ctx args s1 = (Failure f, s2) \<Longrightarrow>
   checkAll (pre @ c # post) ctx args s = (Failure f, s2)"
  by (induction pre arbitrary: s) (auto split: prod.splits Result.splits)

lemma checkAll_no_failure:
  "succeed_all cs ctx args s = Some s1 \<Longrightarrow> checkAll cs ctx args s = (Success (), s1)"
  by (induction cs arbitrary: s) (auto simp: success_def split: prod.splits Result.splits)

text \<open>
  The two cases are all there is: a sequence whose members do not all succeed has a first
  member that fails, after a prefix of members that succeed.
\<close>

lemma succeed_all_None:
  "succeed_all cs ctx args s = None \<Longrightarrow>
   \<exists>pre c post s1 f s2. cs = pre @ c # post \<and> succeed_all pre ctx args s = Some s1 \<and>
      c ctx args s1 = (Failure f, s2)"
proof (induction cs arbitrary: s)
  case Nil
  then show ?case by simp
next
  case (Cons c cs)
  obtain r s' where run: "c ctx args s = (r, s')" by (cases "c ctx args s")
  show ?case
  proof (cases r)
    case (Failure f)
    have "c # cs = [] @ c # cs \<and> succeed_all [] ctx args s = Some s \<and>
        c ctx args s = (Failure f, s')"
      using run Failure by simp
    then show ?thesis by blast
  next
    case (Success u)
    with Cons.prems run have "succeed_all cs ctx args s' = None" by simp
    from Cons.IH [OF this] obtain pre d post s1 f s2 where
      "cs = pre @ d # post" "succeed_all pre ctx args s' = Some s1"
      "d ctx args s1 = (Failure f, s2)"
      by blast
    then have "c # cs = (c # pre) @ d # post \<and> succeed_all (c # pre) ctx args s = Some s1 \<and>
        d ctx args s1 = (Failure f, s2)"
      using run Success by simp
    then show ?thesis by blast
  qed
qed

text \<open>
  C4: \<^verbatim>\<open>checkAll\<close> evaluates its checks in the given order, one at a time, each in the state
  the one before it left. When the checks \<open>pre\<close> succeed one after the other and the next
  check \<open>c\<close> fails with \<open>f\<close>, the result is that failure \<open>f\<close>, unchanged, and the state is
  the one \<open>c\<close> left, whatever the checks \<open>post\<close> after it are: none of them, and so none
  of their handlers, is invoked. When every check succeeds the result is a single
  \<^verbatim>\<open>success(unit)\<close>, in the state the last one left.
\<close>

theorem checkAll_fail_fast:
  "(succeed_all pre ctx args s = Some s1 \<and> c ctx args s1 = (Failure f, s2) \<longrightarrow>
      checkAll (pre @ c # post) ctx args s = (Failure f, s2)) \<and>
   (succeed_all cs ctx' args' t = Some t1 \<longrightarrow> checkAll cs ctx' args' t = (success (), t1))"
  using checkAll_first_failure [of pre ctx args s s1 c f s2 post]
    checkAll_no_failure [of cs ctx' args' t t1]
  by (simp add: success_def)

theorem checkAll_fail_fast_witness:
  "succeed_all [allow] () () 0 = Some 1 \<and>
   deny (denied ''A'') () () 1 = (Failure (denied ''A''), 2) \<and>
   checkAll [allow, deny (denied ''A''), deny (denied ''B''), allow] () () 0
     = (Failure (denied ''A''), 2) \<and>
   succeed_all [allow, allow, allow] () () 0 = Some 3 \<and>
   checkAll [allow, allow, allow] () () 0 = (success (), 3)"
  using checkAll_fail_fast
    [of "[allow]" "()" "()" 0 1 "deny (denied ''A'')" "denied ''A''" 2
        "[deny (denied ''B''), allow]" "[allow, allow, allow]" "()" "()" 0 3]
  by (simp add: allow_def deny_def)

lemma checkAny_loop_first_success:
  "fail_all pre ctx args s = Some (es, s1) \<Longrightarrow> c ctx args s1 = (Success u, s2) \<Longrightarrow>
   checkAny_loop wrap acc (pre @ c # post) ctx args s = (Success u, s2)"
  by (induction pre arbitrary: s acc es) (auto split: prod.splits Result.splits option.splits)

lemma checkAny_loop_all_fail:
  "fail_all cs ctx args s = Some (es, s1) \<Longrightarrow> acc @ es = f # fs \<Longrightarrow>
   checkAny_loop wrap acc cs ctx args s = (Failure (wrap (group ''checkAny'' (f, fs))), s1)"
  by (induction cs arbitrary: s acc es)
     (auto simp: failure_def split: prod.splits Result.splits option.splits list.splits)

lemma fail_all_length: "fail_all cs ctx args s = Some (es, s1) \<Longrightarrow> length es = length cs"
  by (induction cs arbitrary: s es) (auto split: prod.splits Result.splits option.splits)

text \<open>A sequence whose members do not all fail has a first member that succeeds.\<close>

lemma fail_all_None:
  "fail_all cs ctx args s = None \<Longrightarrow>
   \<exists>pre c post es s1 u s2. cs = pre @ c # post \<and> fail_all pre ctx args s = Some (es, s1) \<and>
      c ctx args s1 = (Success u, s2)"
proof (induction cs arbitrary: s)
  case Nil
  then show ?case by simp
next
  case (Cons c cs)
  obtain r s' where run: "c ctx args s = (r, s')" by (cases "c ctx args s")
  show ?case
  proof (cases r)
    case (Success u)
    have "c # cs = [] @ c # cs \<and> fail_all [] ctx args s = Some ([], s) \<and>
        c ctx args s = (Success u, s')"
      using run Success by simp
    then show ?thesis by blast
  next
    case (Failure e)
    with Cons.prems run have "fail_all cs ctx args s' = None"
      by (simp split: option.splits prod.splits)
    from Cons.IH [OF this] obtain pre d post es s1 u s2 where
      "cs = pre @ d # post" "fail_all pre ctx args s' = Some (es, s1)"
      "d ctx args s1 = (Success u, s2)"
      by blast
    then have "c # cs = (c # pre) @ d # post \<and>
        fail_all (c # pre) ctx args s = Some (e # es, s1) \<and> d ctx args s1 = (Success u, s2)"
      using run Failure by simp
    then show ?thesis by blast
  qed
qed

text \<open>
  C5: \<^verbatim>\<open>checkAny\<close> evaluates its checks in order. When the checks \<open>pre\<close> fail one after the
  other and the next check \<open>c\<close> succeeds, the result is that success and the state is the
  one \<open>c\<close> left, whatever the checks \<open>post\<close> after it are: none of them is invoked. When
  there is at least one check and every check fails, the result is a failure wrapping
  \<^verbatim>\<open>group("checkAny", allFailures)\<close>, whose exceptions are the errors of the branches in
  the order of evaluation. With no check at all the result is a failure whose Exception
  is named \<open>EmptyCheckSetError\<close>.
\<close>

theorem checkAny_succeed_fast:
  "(fail_all pre ctx args s = Some (es, s1) \<and> c ctx args s1 = (Success u, s2) \<longrightarrow>
      checkAny wrap (pre @ c # post) ctx args s = (Success u, s2)) \<and>
   (cs \<noteq> [] \<and> fail_all cs ctx' args' t = Some (fs, t1) \<longrightarrow>
      (\<exists>g. checkAny wrap cs ctx' args' t = (Failure (wrap g), t1) \<and>
           g = group ''checkAny'' (hd fs, tl fs) \<and>
           g_name g = ''checkAny'' \<and> elements (g_exceptions g) = fs)) \<and>
   (\<exists>e. checkAny wrap [] ctx'' args'' t' = (Failure e, t') \<and> name e = ''EmptyCheckSetError'')"
proof (intro conjI impI)
  assume "fail_all pre ctx args s = Some (es, s1) \<and> c ctx args s1 = (Success u, s2)"
  then show "checkAny wrap (pre @ c # post) ctx args s = (Success u, s2)"
    by (simp add: checkAny_def checkAny_loop_first_success)
next
  assume a: "cs \<noteq> [] \<and> fail_all cs ctx' args' t = Some (fs, t1)"
  then have "length fs = length cs"
    using fail_all_length [of cs ctx' args' t fs t1] by simp
  with a obtain f rest where fs: "fs = f # rest" by (cases fs) auto
  with a have "checkAny wrap cs ctx' args' t = (Failure (wrap (group ''checkAny'' (f, rest))), t1)"
    by (simp add: checkAny_def checkAny_loop_all_fail)
  with fs show "\<exists>g. checkAny wrap cs ctx' args' t = (Failure (wrap g), t1) \<and>
           g = group ''checkAny'' (hd fs, tl fs) \<and>
           g_name g = ''checkAny'' \<and> elements (g_exceptions g) = fs"
    by (simp add: elements_def group_def)
next
  show "\<exists>e. checkAny wrap [] ctx'' args'' t' = (Failure e, t') \<and> name e = ''EmptyCheckSetError''"
    by (simp add: checkAny_def failure_def exception_def)
qed

theorem checkAny_succeed_fast_witness:
  "fail_all [deny (denied ''A'')] () () 0 = Some ([denied ''A''], 1) \<and>
   allow () () 1 = (Success (), 2) \<and>
   checkAny wrap_as_stack [deny (denied ''A''), allow, deny (denied ''B'')] () () 0
     = (Success (), 2) \<and>
   fail_all [deny (denied ''A''), deny (denied ''B'')] () () 0
     = Some ([denied ''A'', denied ''B''], 2) \<and>
   checkAny wrap_as_stack [deny (denied ''A''), deny (denied ''B'')] () () 0
     = (Failure (wrap_as_stack (group ''checkAny'' (denied ''A'', [denied ''B'']))), 2)"
  using checkAny_succeed_fast
    [of "[deny (denied ''A'')]" "()" "()" 0 "[denied ''A'']" 1 allow "()" 2 wrap_as_stack
        "[deny (denied ''B'')]" "[deny (denied ''A''), deny (denied ''B'')]" "()" "()" 0
        "[denied ''A'', denied ''B'']" 2 "()" "()" "0::nat"]
  by (simp add: allow_def deny_def)

end
